theory Spec2Isabelle
  imports Main
begin

section \<open>Python values\<close>

text \<open>
  A Python \<^verbatim>\<open>str\<close> is a sequence of Unicode code points, and \<^verbatim>\<open>len\<close>, slicing and
  \<^verbatim>\<open>replace\<close> count code points. The model therefore takes a string to be a list of
  code points (natural numbers below \<open>0x110000\<close>), not a list of bytes. \<open>lit\<close> reads an
  ASCII literal of the scripts as such a string; the backslash and the newline, which a
  literal cannot hold, are named.
\<close>

type_synonym codepoint = nat

type_synonym pystr = "codepoint list"

definition lit :: "string \<Rightarrow> pystr" where
  "lit cs = map of_char cs"

definition backslash :: codepoint where
  "backslash = 0x5C"

definition newline :: codepoint where
  "newline = 0x0A"

text \<open>An exception object: its class name and its \<^verbatim>\<open>str(e)\<close>.\<close>

datatype exn = Exn string pystr

primrec exc_str :: "exn \<Rightarrow> pystr" where
  "exc_str (Exn cls msg) = msg"

primrec exc_class :: "exn \<Rightarrow> string" where
  "exc_class (Exn cls msg) = cls"

text \<open>
  \<^verbatim>\<open>except Exception\<close> catches the instances of \<^verbatim>\<open>Exception\<close>. The built-in classes
  that derive from \<^verbatim>\<open>BaseException\<close> and not from \<^verbatim>\<open>Exception\<close> are the four below;
  an exception of one of them is not caught.
\<close>

definition is_Exception :: "exn \<Rightarrow> bool" where
  "is_Exception e \<longleftrightarrow>
     exc_class e \<notin> set [''KeyboardInterrupt'', ''SystemExit'', ''GeneratorExit'',
                          ''BaseExceptionGroup'']"

subsection \<open>\<^verbatim>\<open>str.replace(old, new)\<close>\<close>

text \<open>
  \<^verbatim>\<open>s.replace(old, new)\<close> with no count replaces every occurrence of \<open>old\<close>, found
  from the left and not overlapping. With an empty \<open>old\<close> it puts \<open>new\<close> before every
  character and at the end.
\<close>

function replace_scan :: "pystr \<Rightarrow> pystr \<Rightarrow> pystr \<Rightarrow> pystr" where
  "replace_scan old new [] = []"
| "replace_scan old new (c # cs) =
     (if old \<noteq> [] \<and> take (length old) (c # cs) = old
      then new @ replace_scan old new (drop (length old) (c # cs))
      else c # replace_scan old new cs)"
  by pat_completeness auto

termination
  by (relation "measure (\<lambda>(old, new, s). length s)") (auto simp: Suc_le_eq)

definition str_replace :: "pystr \<Rightarrow> pystr \<Rightarrow> pystr \<Rightarrow> pystr" where
  "str_replace s old new =
     (if old = [] then new @ concat (map (\<lambda>c. c # new) s) else replace_scan old new s)"

section \<open>scripts/escape-changelog.py\<close>

definition special_chars :: "pystr list" where
  "special_chars =
     [[backslash], lit ''_'', lit ''*'', lit ''['', lit '']'', lit ''('', lit '')'',
      lit ''~'', lit ''`'', lit ''>'', lit ''#'', lit ''+'', lit ''-'', lit ''='',
      lit ''|'', lit ''{'', lit ''}'', lit ''.'', lit ''!'']"

definition escape_markdown_v2 :: "pystr \<Rightarrow> pystr" where
  "escape_markdown_v2 text =
     foldl (\<lambda>text char. str_replace text char ([backslash] @ char)) text special_chars"

text \<open>
  The body of \<^verbatim>\<open>main\<close> between the read and the print: the slice \<^verbatim>\<open>text[:3500]\<close>,
  the escape, then the newline substitution.
\<close>

definition changelog_transform :: "pystr \<Rightarrow> pystr" where
  "changelog_transform text =
     (let text = take 3500 text;
          escaped = escape_markdown_v2 text;
          escaped = str_replace escaped [newline] (lit ''%0A'')
      in escaped)"

subsection \<open>\<^verbatim>\<open>main\<close>\<close>

text \<open>
  \<^verbatim>\<open>main\<close> is modelled by what it asks of the interpreter and by how it ends: the
  calls of \<^verbatim>\<open>print\<close> it makes, each with its stream and its argument, and then whether
  it returns, raises \<^verbatim>\<open>SystemExit\<close> through \<^verbatim>\<open>sys.exit\<close>, or lets an exception out.
  What its calls into the interpreter do is an input: the \<^verbatim>\<open>with\<close> block that opens and
  reads the fixed path gives the text or raises, and each \<^verbatim>\<open>print\<close> returns or raises.
  What the interpreter does after \<^verbatim>\<open>main\<close> (its buffers, a flush that fails at
  shutdown, the status the process ends with) is not part of \<^verbatim>\<open>main\<close> and is not
  modelled.
\<close>

datatype call = Print_stdout pystr | Print_stderr pystr

datatype ending = Returned | Sys_exit nat | Propagated exn

record run =
  calls :: "call list"
  ends :: ending

text \<open>
  The handler \<^verbatim>\<open>except Exception as e\<close>, entered after the calls \<open>made\<close>: for an
  instance of \<^verbatim>\<open>Exception\<close> the \<^verbatim>\<open>print\<close> of the line to \<^verbatim>\<open>sys.stderr\<close> and, when that
  returns, \<^verbatim>\<open>sys.exit(1)\<close>; an exception raised by that \<^verbatim>\<open>print\<close>, and an exception
  the clause does not catch, leave \<^verbatim>\<open>main\<close>.
\<close>

definition on_exception :: "exn option \<Rightarrow> exn \<Rightarrow> call list \<Rightarrow> run" where
  "on_exception err e made =
     (if is_Exception e
      then (case err of
              None \<Rightarrow>
                \<lparr>calls = made @ [Print_stderr (lit ''Error: '' @ exc_str e)], ends = Sys_exit 1\<rparr>
            | Some e' \<Rightarrow>
                \<lparr>calls = made @ [Print_stderr (lit ''Error: '' @ exc_str e)],
                 ends = Propagated e'\<rparr>)
      else \<lparr>calls = made, ends = Propagated e\<rparr>)"

text \<open>The last statement of the \<^verbatim>\<open>try\<close> block, \<^verbatim>\<open>print\<close> of the result.\<close>

definition print_result :: "exn option \<Rightarrow> exn option \<Rightarrow> pystr \<Rightarrow> run" where
  "print_result out err s =
     (case out of
        None \<Rightarrow> \<lparr>calls = [Print_stdout s], ends = Returned\<rparr>
      | Some e \<Rightarrow> on_exception err e [Print_stdout s])"


section \<open>scripts/escape-markdown.py\<close>

definition special :: "pystr list" where
  "special =
     [[backslash], lit ''_'', lit ''*'', lit ''['', lit '']'', lit ''('', lit '')'',
      lit ''~'', lit ''`'', lit ''>'', lit ''#'', lit ''+'', lit ''-'', lit ''='',
      lit ''|'', lit ''{'', lit ''}'', lit ''.'', lit ''!'']"

definition escape_markdown_v2_message :: "pystr \<Rightarrow> pystr" where
  "escape_markdown_v2_message text =
     foldl (\<lambda>text c. str_replace text c ([backslash] @ c)) text special"

subsection \<open>\<^verbatim>\<open>urllib.parse.quote\<close>\<close>

text \<open>
  The standard library's \<^verbatim>\<open>quote(string)\<close> with the defaults the script calls it with
  (\<^verbatim>\<open>safe='/'\<close>, UTF-8, strict): the string is encoded to UTF-8, which raises
  \<^verbatim>\<open>UnicodeEncodeError\<close> at a surrogate, and every byte that is not a letter, a digit,
  one of \<^verbatim>\<open>_.-~\<close> or the slash becomes \<^verbatim>\<open>%XX\<close> in upper-case hexadecimal.
\<close>

definition always_safe :: pystr where
  "always_safe =
     lit ''ABCDEFGHIJKLMNOPQRSTUVWXYZ'' @ lit ''abcdefghijklmnopqrstuvwxyz'' @
     lit ''0123456789'' @ lit ''_.-~''"

definition is_surrogate :: "codepoint \<Rightarrow> bool" where
  "is_surrogate c \<longleftrightarrow> 0xD800 \<le> c \<and> c \<le> 0xDFFF"

fun first_surrogate :: "pystr \<Rightarrow> nat option" where
  "first_surrogate [] = None"
| "first_surrogate (c # cs) =
     (if is_surrogate c then Some 0 else map_option Suc (first_surrogate cs))"

function decimal :: "nat \<Rightarrow> pystr" where
  "decimal n = (if n < 10 then [48 + n] else decimal (n div 10) @ [48 + n mod 10])"
  by pat_completeness auto

termination
  by (relation "measure (\<lambda>n. n)") auto

definition hex_lower :: "nat \<Rightarrow> codepoint" where
  "hex_lower d = lit ''0123456789abcdef'' ! (d mod 16)"

definition hex_upper :: "nat \<Rightarrow> codepoint" where
  "hex_upper d = lit ''0123456789ABCDEF'' ! (d mod 16)"

text \<open>
  The \<^verbatim>\<open>UnicodeEncodeError\<close> of the strict UTF-8 encoder: it spans the run of surrogates
  that starts at position \<open>i\<close>, and its text names the character when the run is one
  character long and the positions otherwise.
\<close>

definition encode_error :: "pystr \<Rightarrow> nat \<Rightarrow> exn" where
  "encode_error s i =
     (let c = s ! i;
          stop = i + length (takeWhile is_surrogate (drop i s))
      in Exn ''UnicodeEncodeError''
           ([0x27] @ lit ''utf-8'' @ [0x27] @
            (if stop = i + 1
             then lit '' codec can't encode character '' @ [0x27, backslash] @ lit ''u'' @
                  [hex_lower (c div 4096), hex_lower (c div 256), hex_lower (c div 16),
                   hex_lower c] @ [0x27] @ lit '' in position '' @ decimal i
             else lit '' codec can't encode characters in position '' @ decimal i @
                  lit ''-'' @ decimal (stop - 1)) @
            lit '': surrogates not allowed''))"

text \<open>
  The UTF-8 bytes of a code point that is not a surrogate. (A number from \<open>0x110000\<close> on
  is no Python character; the last branch is then without meaning.)
\<close>

definition utf8_bytes :: "codepoint \<Rightarrow> nat list" where
  "utf8_bytes c =
     (if c < 0x80 then [c]
      else if c < 0x800 then [0xC0 + c div 64, 0x80 + c mod 64]
      else if c < 0x10000 then [0xE0 + c div 4096, 0x80 + c div 64 mod 64, 0x80 + c mod 64]
      else [0xF0 + c div 262144, 0x80 + c div 4096 mod 64, 0x80 + c div 64 mod 64,
            0x80 + c mod 64])"

definition encode_utf8 :: "pystr \<Rightarrow> exn + nat list" where
  "encode_utf8 s =
     (case first_surrogate s of
        Some i \<Rightarrow> Inl (encode_error s i)
      | None \<Rightarrow> Inr (concat (map utf8_bytes s)))"

definition quote_byte :: "pystr \<Rightarrow> nat \<Rightarrow> pystr" where
  "quote_byte safe b =
     (if b \<in> set safe then [b] else lit ''%'' @ [hex_upper (b div 16), hex_upper b])"

definition quote :: "pystr \<Rightarrow> exn + pystr" where
  "quote string =
     (case encode_utf8 string of
        Inl e \<Rightarrow> Inl e
      | Inr bs \<Rightarrow> Inr (concat (map (quote_byte (always_safe @ lit ''/'')) bs)))"

text \<open>The body of \<^verbatim>\<open>main\<close> between the read and the print: the escape, then the quoting.\<close>

definition message_transform :: "pystr \<Rightarrow> exn + pystr" where
  "message_transform text =
     (let escaped = escape_markdown_v2_message text;
          encoded = quote escaped
      in encoded)"

definition main_message :: "exn + pystr \<Rightarrow> exn option \<Rightarrow> exn option \<Rightarrow> run" where
  "main_message file out err =
     (case file of
        Inl e \<Rightarrow> on_exception err e []
      | Inr text \<Rightarrow>
          (case message_transform text of
             Inl e \<Rightarrow> on_exception err e []
           | Inr encoded \<Rightarrow> print_result out err encoded))"

section \<open>\<^verbatim>\<open>sync_readme.py\<close>\<close>

text \<open>
  The substitution of the script: \<open>content\<close> is the string that \<^verbatim>\<open>f.read()\<close> returned,
  \<open>raw_content\<close> the text of the response, and \<open>new_content\<close> the string handed to
  \<^verbatim>\<open>f.write\<close>. How the files' bytes become these strings and back (the decoding, the
  translation of line ends) is the interpreter's and is not modelled.
\<close>

definition placeholder :: pystr where
  "placeholder =
     lit ''Sync README.md content from https://github.com/koiverse/ArchiveTune raw.''"

definition new_content :: "pystr \<Rightarrow> pystr \<Rightarrow> pystr" where
  "new_content content raw_content = str_replace content placeholder raw_content"

section \<open>What the specification says\<close>

text \<open>
  The specification's reserved characters, in its own order, and its single scan that
  puts a backslash before each of them.
\<close>

definition reserved :: pystr where
  "reserved = backslash # lit ''_*[]()~`>#+-=|{}.!''"

fun escape_single_pass :: "pystr \<Rightarrow> pystr" where
  "escape_single_pass [] = []"
| "escape_single_pass (c # cs) =
     (if c \<in> set reserved then backslash # c # escape_single_pass cs
      else c # escape_single_pass cs)"

text \<open>The reserved characters of a URL (RFC 3986, 2.2): gen-delims and sub-delims.\<close>

definition url_reserved :: pystr where
  "url_reserved = lit '':/?#[]@'' @ lit ''!$&'()*+,;=''"

text \<open>
  Python's \<^verbatim>\<open>old in s\<close> and \<^verbatim>\<open>sep.join(parts)\<close>, to speak of the occurrences of
  a substring.
\<close>

fun contains :: "pystr \<Rightarrow> pystr \<Rightarrow> bool" where
  "contains old [] \<longleftrightarrow> old = []"
| "contains old (c # cs) \<longleftrightarrow> take (length old) (c # cs) = old \<or> contains old cs"

fun join :: "pystr \<Rightarrow> pystr list \<Rightarrow> pystr" where
  "join sep [] = []"
| "join sep [p] = p"
| "join sep (p # q # ps) = p @ sep @ join sep (q # ps)"

text \<open>
  The text after the passes for the characters of a set \<open>S\<close>: a backslash before each
  character of \<open>S\<close>. The loop of \<^verbatim>\<open>escape_markdown_v2\<close> goes through these texts.
\<close>

definition escape_chars :: "codepoint set \<Rightarrow> pystr \<Rightarrow> pystr" where
  "escape_chars S s = concat (map (\<lambda>x. if x \<in> S then [backslash, x] else [x]) s)"

text \<open>What \<^verbatim>\<open>quote\<close> makes of one character that is not a surrogate.\<close>

definition quote_char :: "codepoint \<Rightarrow> pystr" where
  "quote_char c = concat (map (quote_byte (always_safe @ lit ''/'')) (utf8_bytes c))"

section \<open>Literals and replacement of one character\<close>

lemma lit_Nil: "lit [] = []"
  by (simp add: lit_def)

lemma lit_Cons: "lit (c # cs) = of_char c # lit cs"
  by (simp add: lit_def)

lemma reserved_codes:
  "reserved = [92, 95, 42, 91, 93, 40, 41, 126, 96, 62, 35, 43, 45, 61, 124, 123, 125, 46, 33]"
  by (simp add: reserved_def lit_Nil lit_Cons backslash_def)

lemma replace_scan_single:
  "replace_scan [c] new s = concat (map (\<lambda>x. if x = c then new else [x]) s)"
  by (induction s) auto

lemma str_replace_single:
  "str_replace s [c] new = concat (map (\<lambda>x. if x = c then new else [x]) s)"
  by (simp add: str_replace_def replace_scan_single)

lemma str_replace_single_id: "c \<notin> set s \<Longrightarrow> str_replace s [c] new = s"
  unfolding str_replace_single by (induction s) auto

lemma str_replace_single_append:
  "str_replace (s @ t) [c] new = str_replace s [c] new @ str_replace t [c] new"
  by (simp add: str_replace_single)

section \<open>The loop of the escape is one scan\<close>

lemma escape_chars_empty: "escape_chars {} s = s"
  by (induction s) (auto simp: escape_chars_def)

lemma escape_chars_first: "str_replace s [c] [backslash, c] = escape_chars {c} s"
  unfolding escape_chars_def str_replace_single by (induction s) auto

lemma escape_chars_step:
  "c \<notin> S \<Longrightarrow> c \<noteq> backslash \<Longrightarrow>
   str_replace (escape_chars S s) [c] [backslash, c] = escape_chars (insert c S) s"
  unfolding escape_chars_def str_replace_single by (induction s) auto

lemma escape_chars_fold:
  "distinct cs \<Longrightarrow> backslash \<notin> set cs \<Longrightarrow> set cs \<inter> S = {} \<Longrightarrow>
   foldl (\<lambda>text c. str_replace text [c] ([backslash] @ [c])) (escape_chars S s) cs =
   escape_chars (S \<union> set cs) s"
proof (induction cs arbitrary: S)
  case Nil
  then show ?case by simp
next
  case (Cons c cs)
  have "foldl (\<lambda>text c. str_replace text [c] ([backslash] @ [c])) (escape_chars (insert c S) s) cs
      = escape_chars (insert c S \<union> set cs) s"
    using Cons.prems by (intro Cons.IH) auto
  with Cons.prems show ?case
    by (simp add: escape_chars_step)
qed

lemma special_chars_reserved: "special_chars = map (\<lambda>c. [c]) reserved"
  by (simp add: special_chars_def reserved_def lit_Nil lit_Cons)

lemma special_eq: "special = special_chars"
  by (simp add: special_def special_chars_def)

lemma escape_message_eq: "escape_markdown_v2_message s = escape_markdown_v2 s"
  by (simp add: escape_markdown_v2_message_def escape_markdown_v2_def special_eq)

lemma escape_is_escape_chars: "escape_markdown_v2 s = escape_chars (set reserved) s"
proof -
  let ?f = "\<lambda>text c. str_replace text [c] ([backslash] @ [c])"
  have "escape_markdown_v2 s = foldl ?f s (backslash # tl reserved)"
    by (simp add: escape_markdown_v2_def special_chars_reserved foldl_map reserved_def)
  also have "\<dots> = foldl ?f (escape_chars {backslash} s) (tl reserved)"
    by (simp add: escape_chars_first)
  also have "\<dots> = escape_chars ({backslash} \<union> set (tl reserved)) s"
    by (rule escape_chars_fold) (simp_all add: reserved_codes backslash_def)
  also have "{backslash} \<union> set (tl reserved) = set reserved"
    by (simp add: reserved_def)
  finally show ?thesis .
qed

lemma single_pass_is_escape_chars: "escape_single_pass s = escape_chars (set reserved) s"
  by (induction s) (simp_all add: escape_chars_def)

lemma escape_chars_append: "escape_chars S (s @ t) = escape_chars S s @ escape_chars S t"
  by (simp add: escape_chars_def)

lemma escape_chars_Cons:
  "escape_chars S (c # s) = (if c \<in> S then backslash # c # escape_chars S s else c # escape_chars S s)"
  by (simp add: escape_chars_def)

lemma escape_chars_Nil: "escape_chars S [] = []"
  by (simp add: escape_chars_def)

lemma length_escape_chars:
  "length (escape_chars S s) = length s + length (filter (\<lambda>c. c \<in> S) s)"
  by (induction s) (simp_all add: escape_chars_Nil escape_chars_Cons)

lemma escape_chars_id: "set s \<inter> S = {} \<Longrightarrow> escape_chars S s = s"
  by (induction s) (simp_all add: escape_chars_Nil escape_chars_Cons)

lemma filter_escape_chars:
  "backslash \<in> S \<Longrightarrow>
   length (filter (\<lambda>c. c \<in> S) (escape_chars S s)) = 2 * length (filter (\<lambda>c. c \<in> S) s)"
  by (induction s) (simp_all add: escape_chars_Nil escape_chars_Cons)

lemma set_escape_chars: "set (escape_chars S s) \<subseteq> insert backslash (set s)"
  by (induction s) (auto simp: escape_chars_Nil escape_chars_Cons)

lemma backslash_reserved: "backslash \<in> set reserved"
  by (simp add: reserved_def)

section \<open>The escape\<close>

text \<open>
  C1. For every string \<open>s\<close>, the escape of either script gives the text of the single
  scan: each occurrence of each of the 19 reserved characters has one backslash put
  before it, and every other character stands as it was. For each reserved character
  \<open>c\<close>, the escape of the string \<open>c\<close> is the backslash followed by \<open>c\<close>.
\<close>

theorem escape_markdown_v2_single_pass:
  "escape_markdown_v2 s = escape_single_pass s \<and>
   escape_markdown_v2_message s = escape_single_pass s \<and>
   length reserved = 19 \<and> distinct reserved \<and>
   (\<forall>c \<in> set reserved.
      escape_markdown_v2 [c] = [backslash, c] \<and> escape_markdown_v2_message [c] = [backslash, c])"
proof -
  have one: "escape_markdown_v2 s = escape_single_pass s"
    by (simp add: escape_is_escape_chars single_pass_is_escape_chars)
  have two: "escape_markdown_v2_message s = escape_single_pass s"
    by (simp add: escape_message_eq one)
  have count: "length reserved = 19 \<and> distinct reserved"
    by (simp add: reserved_codes)
  have "escape_markdown_v2 [c] = [backslash, c]" if "c \<in> set reserved" for c
    using that by (simp add: escape_is_escape_chars escape_chars_Cons escape_chars_Nil)
  then show ?thesis
    using one two count by (simp add: escape_message_eq)
qed

text \<open>The two scenarios of the specification, and the exclamation mark on its own.\<close>

theorem escape_markdown_v2_single_pass_witness:
  "escape_markdown_v2 (lit ''Fixed bug in v1.2.3!'') =
     lit ''Fixed bug in v1'' @ backslash # lit ''.2'' @ backslash # lit ''.3'' @ backslash # lit ''!'' \<and>
   escape_markdown_v2_message (lit ''a_b*c'') =
     lit ''a'' @ backslash # lit ''_b'' @ backslash # lit ''*c'' \<and>
   of_char CHR ''!'' \<in> set reserved \<and>
   escape_markdown_v2 [of_char CHR ''!''] = [backslash, of_char CHR ''!'']"
  using escape_markdown_v2_single_pass [of "lit ''Fixed bug in v1.2.3!''"]
    escape_markdown_v2_single_pass [of "lit ''a_b*c''"]
  by (simp add: reserved_codes lit_Nil lit_Cons backslash_def)

text \<open>
  C2. The backslash is the first character of the loop. The two characters backslash,
  underscore become the four characters backslash, backslash, backslash, underscore,
  not the three characters backslash, backslash, underscore. (The same loop over the
  list reversed, the backslash last, turns one underscore into backslash, backslash,
  underscore: the order matters.)
\<close>

theorem backslash_escaped_first:
  "hd special_chars = [backslash] \<and> hd special = [backslash] \<and>
   escape_markdown_v2 (backslash # lit ''_'') = [backslash, backslash, backslash] @ lit ''_'' \<and>
   escape_markdown_v2_message (backslash # lit ''_'') = [backslash, backslash, backslash] @ lit ''_'' \<and>
   length (escape_markdown_v2 (backslash # lit ''_'')) = 4 \<and>
   escape_markdown_v2 (backslash # lit ''_'') \<noteq> [backslash, backslash] @ lit ''_'' \<and>
   foldl (\<lambda>text char. str_replace text char ([backslash] @ char)) (lit ''_'') (rev special_chars)
     = [backslash, backslash] @ lit ''_''"
  by (simp add: special_chars_def special_def escape_message_eq escape_is_escape_chars
      escape_chars_Cons escape_chars_Nil reserved_codes lit_Nil lit_Cons backslash_def
      str_replace_single)

text \<open>
  C3. On a string in which no reserved character occurs the escape is the identity; the
  empty string goes to the empty string.
\<close>

theorem escape_identity_without_reserved:
  "(set s \<inter> set reserved = {} \<longrightarrow>
      escape_markdown_v2 s = s \<and> escape_markdown_v2_message s = s) \<and>
   escape_markdown_v2 [] = [] \<and> escape_markdown_v2_message [] = []"
  by (simp add: escape_message_eq escape_is_escape_chars escape_chars_id escape_chars_Nil)

theorem escape_identity_without_reserved_witness:
  "set (lit ''release 42'') \<inter> set reserved = {} \<and>
   escape_markdown_v2 (lit ''release 42'') = lit ''release 42'' \<and>
   escape_markdown_v2_message (lit ''release 42'') = lit ''release 42''"
  using escape_identity_without_reserved [of "lit ''release 42''"]
  by (simp add: reserved_codes lit_Nil lit_Cons)

text \<open>
  C4. The escape is idempotent exactly on the strings without a reserved character: on
  such a string a second escape changes nothing, and on a string with a reserved
  character the second escape gives a different, longer text, two characters more for
  each reserved character of \<open>s\<close>, since it escapes the backslashes of the first.
\<close>

theorem escape_idempotent_iff:
  "(set s \<inter> set reserved = {} \<longrightarrow>
      escape_markdown_v2 (escape_markdown_v2 s) = escape_markdown_v2 s) \<and>
   (set s \<inter> set reserved \<noteq> {} \<longrightarrow>
      escape_markdown_v2 (escape_markdown_v2 s) \<noteq> escape_markdown_v2 s \<and>
      length (escape_markdown_v2 (escape_markdown_v2 s)) =
        length (escape_markdown_v2 s) + 2 * length (filter (\<lambda>c. c \<in> set reserved) s))"
proof -
  let ?n = "length (filter (\<lambda>c. c \<in> set reserved) s)"
  have len: "length (escape_markdown_v2 (escape_markdown_v2 s)) = length (escape_markdown_v2 s) + 2 * ?n"
    by (simp add: escape_is_escape_chars length_escape_chars filter_escape_chars backslash_reserved)
  have pos: "0 < ?n" if "set s \<inter> set reserved \<noteq> {}"
    using that by (auto simp: filter_empty_conv)
  have "escape_markdown_v2 (escape_markdown_v2 s) \<noteq> escape_markdown_v2 s" if "set s \<inter> set reserved \<noteq> {}"
  proof
    assume "escape_markdown_v2 (escape_markdown_v2 s) = escape_markdown_v2 s"
    then have "length (escape_markdown_v2 (escape_markdown_v2 s)) = length (escape_markdown_v2 s)"
      by simp
    with len pos [OF that] show False by simp
  qed
  then show ?thesis
    using len by (simp add: escape_is_escape_chars escape_chars_id)
qed

theorem escape_idempotent_iff_witness:
  "set (lit ''abc'') \<inter> set reserved = {} \<and>
   escape_markdown_v2 (escape_markdown_v2 (lit ''abc'')) = escape_markdown_v2 (lit ''abc'') \<and>
   set (lit ''a_b'') \<inter> set reserved \<noteq> {} \<and>
   escape_markdown_v2 (escape_markdown_v2 (lit ''a_b'')) \<noteq> escape_markdown_v2 (lit ''a_b'') \<and>
   length (escape_markdown_v2 (escape_markdown_v2 (lit ''a_b''))) = 6"
  using escape_idempotent_iff [of "lit ''abc''"] escape_idempotent_iff [of "lit ''a_b''"]
  by (simp add: reserved_codes lit_Nil lit_Cons escape_is_escape_chars escape_chars_Cons escape_chars_Nil)

text \<open>
  C10. The escape of a concatenation is the concatenation of the escapes, and the
  length of the escape of \<open>s\<close> is the length of \<open>s\<close> plus the number of occurrences of
  reserved characters in \<open>s\<close>.
\<close>

theorem escape_append:
  "escape_markdown_v2 (s @ t) = escape_markdown_v2 s @ escape_markdown_v2 t \<and>
   escape_markdown_v2_message (s @ t) = escape_markdown_v2_message s @ escape_markdown_v2_message t \<and>
   length (escape_markdown_v2 s) = length s + length (filter (\<lambda>c. c \<in> set reserved) s) \<and>
   length (escape_markdown_v2_message s) = length s + length (filter (\<lambda>c. c \<in> set reserved) s)"
  by (simp add: escape_message_eq escape_is_escape_chars escape_chars_append length_escape_chars)

section \<open>The changelog script\<close>

lemma changelog_transform_eq:
  "changelog_transform text = str_replace (escape_markdown_v2 (take 3500 text)) [newline] (lit ''%0A'')"
  by (simp add: changelog_transform_def)

lemma newline_not_reserved: "newline \<notin> insert backslash (set reserved)"
  by (simp add: reserved_codes newline_def backslash_def)

lemma underscore_reserved: "(95::nat) \<in> set reserved"
  by (simp add: reserved_codes)

lemma changelog_replicate:
  assumes "c \<in> set reserved"
  shows "changelog_transform (replicate n c) = escape_markdown_v2 (replicate (min 3500 n) c)"
proof -
  have "c \<noteq> newline"
    using assms newline_not_reserved by auto
  then have "newline \<notin> set (escape_markdown_v2 (replicate (min 3500 n) c))"
    using set_escape_chars [of "set reserved" "replicate (min 3500 n) c"] newline_not_reserved
    by (auto simp: escape_is_escape_chars)
  then show ?thesis
    by (simp add: changelog_transform_eq str_replace_single_id)
qed

lemma length_escape_replicate:
  "c \<in> set reserved \<Longrightarrow> length (escape_markdown_v2 (replicate n c)) = 2 * n"
  by (simp add: escape_is_escape_chars length_escape_chars)

text \<open>
  C5. The changelog script truncates before it escapes: what it escapes is the first
  3500 characters of the text read. A text longer than 3500 characters leaves exactly
  3500 characters to escape, and the result is that of its first 3500 characters; a
  text of at most 3500 characters is left as it is by the slice. The escaped text can
  be longer than 3500 and than 4096 characters: 3501 underscores give 7000 characters.
\<close>

theorem changelog_truncates_before_escaping:
  "changelog_transform text =
     str_replace (escape_markdown_v2 (take 3500 text)) [newline] (lit ''%0A'') \<and>
   (3500 < length text \<longrightarrow>
      length (take 3500 text) = 3500 \<and>
      changelog_transform text = changelog_transform (take 3500 text)) \<and>
   (length text \<le> 3500 \<longrightarrow> take 3500 text = text) \<and>
   length (escape_markdown_v2 (take 3500 (replicate 3501 (of_char CHR ''_'')))) = 7000 \<and>
   length (changelog_transform (replicate 3501 (of_char CHR ''_''))) = 7000"
proof -
  have "changelog_transform text = changelog_transform (take 3500 text)"
    by (simp add: changelog_transform_eq)
  moreover have "length (escape_markdown_v2 (take 3500 (replicate 3501 (of_char CHR ''_'')))) = 7000"
    by (simp add: length_escape_replicate underscore_reserved)
  moreover have "length (changelog_transform (replicate 3501 (of_char CHR ''_''))) = 7000"
    by (simp add: changelog_replicate length_escape_replicate underscore_reserved)
  ultimately show ?thesis
    by (simp add: changelog_transform_eq)
qed

theorem changelog_truncates_before_escaping_witness:
  "3500 < length (replicate 3501 (of_char CHR ''_'' :: nat)) \<and>
   length (take 3500 (replicate 3501 (of_char CHR ''_'' :: nat))) = 3500 \<and>
   changelog_transform (replicate 3501 (of_char CHR ''_'')) =
     changelog_transform (take 3500 (replicate 3501 (of_char CHR ''_''))) \<and>
   length (lit ''v1.2'') \<le> 3500 \<and>
   take 3500 (lit ''v1.2'') = lit ''v1.2''"
proof -
  have long: "3500 < length (replicate 3501 (of_char CHR ''_'' :: nat))"
    by simp
  have short: "length (lit ''v1.2'') \<le> 3500"
    by (simp add: lit_def)
  show ?thesis
    using long short
      changelog_truncates_before_escaping [of "replicate 3501 (of_char CHR ''_'')"]
      changelog_truncates_before_escaping [of "lit ''v1.2''"]
    by blast
qed

text \<open>
  C6. After the escape every newline becomes the three characters \<^verbatim>\<open>%0A\<close> and every
  other character stays: the result holds no newline, and a \<^verbatim>\<open>%0A\<close> that stood in
  the text goes through as it is.
\<close>

theorem newline_substitution:
  "str_replace s [newline] (lit ''%0A'') =
     concat (map (\<lambda>c. if c = newline then lit ''%0A'' else [c]) s) \<and>
   changelog_transform text =
     concat (map (\<lambda>c. if c = newline then lit ''%0A'' else [c])
       (escape_markdown_v2 (take 3500 text))) \<and>
   newline \<notin> set (changelog_transform text) \<and>
   str_replace (a @ lit ''%0A'' @ b) [newline] (lit ''%0A'') =
     str_replace a [newline] (lit ''%0A'') @ lit ''%0A'' @ str_replace b [newline] (lit ''%0A'') \<and>
   changelog_transform (lit ''%0A'') = lit ''%0A'' \<and>
   changelog_transform (lit ''a%0Ab'' @ [newline] @ lit ''c'') = lit ''a%0Ab%0Ac''"
proof -
  have sub: "str_replace s [newline] (lit ''%0A'') =
      concat (map (\<lambda>c. if c = newline then lit ''%0A'' else [c]) s)" for s
    by (rule str_replace_single)
  have no_nl: "newline \<notin> set (lit ''%0A'')"
    by (simp add: lit_Nil lit_Cons newline_def)
  have "newline \<notin> set (str_replace s [newline] (lit ''%0A''))" for s
    unfolding sub using no_nl by (induction s) auto
  then have gone: "newline \<notin> set (changelog_transform text)"
    by (simp add: changelog_transform_eq)
  have mid: "str_replace (a @ lit ''%0A'' @ b) [newline] (lit ''%0A'') =
     str_replace a [newline] (lit ''%0A'') @ lit ''%0A'' @ str_replace b [newline] (lit ''%0A'')"
    using no_nl by (simp add: str_replace_single_append str_replace_single_id)
  have ex1: "changelog_transform (lit ''%0A'') = lit ''%0A''"
    by (simp add: changelog_transform_eq escape_is_escape_chars escape_chars_Cons escape_chars_Nil
        str_replace_single reserved_codes lit_Nil lit_Cons newline_def)
  have ex2: "changelog_transform (lit ''a%0Ab'' @ [newline] @ lit ''c'') = lit ''a%0Ab%0Ac''"
    by (simp add: changelog_transform_eq escape_is_escape_chars escape_chars_Cons escape_chars_Nil
        str_replace_single reserved_codes lit_Nil lit_Cons newline_def)
  show ?thesis
    using sub gone mid ex1 ex2 by (simp add: changelog_transform_eq)
qed

section \<open>The sync script\<close>

lemma contains_empty: "contains [] s"
  by (cases s) simp_all

lemma take_eq_length: "take (length old) s = old \<Longrightarrow> length old \<le> length s"
proof -
  assume "take (length old) s = old"
  then have "length (take (length old) s) = length old"
    by simp
  then show ?thesis
    by simp
qed

lemma contains_length: "contains old s \<Longrightarrow> length old \<le> length s"
proof (induction s)
  case Nil
  then show ?case by simp
next
  case (Cons c cs)
  then show ?case
    using take_eq_length [of old "c # cs"] by auto
qed

lemma replace_scan_absent: "\<not> contains old s \<Longrightarrow> replace_scan old new s = s"
  by (induction s) auto

lemma str_replace_absent: "\<not> contains old s \<Longrightarrow> str_replace s old new = s"
  using contains_empty by (auto simp: str_replace_def replace_scan_absent)

lemma replace_scan_here:
  "old \<noteq> [] \<Longrightarrow> replace_scan old new (old @ r) = new @ replace_scan old new r"
  by (cases old) simp_all

lemma replace_scan_first:
  "old \<noteq> [] \<Longrightarrow> \<not> contains old (a @ butlast old) \<Longrightarrow>
   replace_scan old new (a @ old @ r) = a @ new @ replace_scan old new r"
proof (induction a)
  case Nil
  then show ?case by (simp add: replace_scan_here)
next
  case (Cons y a)
  have "(y # a) @ old @ r = ((y # a) @ butlast old) @ last old # r"
    using Cons.prems(1) by simp
  then have "take (length old) ((y # a) @ old @ r) = take (length old) ((y # a) @ butlast old)"
    by (simp only: take_append) simp
  moreover have "take (length old) ((y # a) @ butlast old) \<noteq> old"
    and "\<not> contains old (a @ butlast old)"
    using Cons.prems(2) by simp_all
  ultimately show ?case
    using Cons.IH Cons.prems(1) by simp
qed

lemma str_replace_first:
  "old \<noteq> [] \<Longrightarrow> \<not> contains old (a @ butlast old) \<Longrightarrow>
   str_replace (a @ old @ r) old new = a @ new @ str_replace r old new"
  by (simp add: str_replace_def replace_scan_first)

lemma str_replace_join:
  "old \<noteq> [] \<Longrightarrow> parts \<noteq> [] \<Longrightarrow>
   \<forall>p \<in> set (butlast parts). \<not> contains old (p @ butlast old) \<Longrightarrow>
   \<not> contains old (last parts) \<Longrightarrow>
   str_replace (join old parts) old new = join new parts"
proof (induction old parts rule: join.induct)
  case (1 sep)
  then show ?case by simp
next
  case (2 sep p)
  then show ?case by (simp add: str_replace_absent)
next
  case (3 sep p q ps)
  then show ?case by (simp add: str_replace_first)
qed

lemma placeholder_length: "length placeholder = 72"
  by (simp add: placeholder_def lit_def)

lemma placeholder_nonempty: "placeholder \<noteq> []"
  using placeholder_length by auto

lemma short_absent: "length s < length old \<Longrightarrow> \<not> contains old s"
  using contains_length by fastforce

text \<open>
  C8, as the code has it. The one call of \<^verbatim>\<open>replace\<close> is literal and replaces every
  occurrence of the placeholder, found from the left and not overlapping: a content
  made of parts joined by the placeholder (with no further occurrence in it) gives the
  same parts joined by the fetched text, however many parts there are, and a content
  without the placeholder gives itself.
\<close>

theorem substitution_replaces_every_occurrence:
  "(\<not> contains placeholder content \<longrightarrow> new_content content raw_content = content) \<and>
   (parts \<noteq> [] \<and> (\<forall>p \<in> set (butlast parts). \<not> contains placeholder (p @ butlast placeholder)) \<and>
    \<not> contains placeholder (last parts) \<longrightarrow>
      new_content (join placeholder parts) raw_content = join raw_content parts)"
  by (simp add: new_content_def str_replace_absent str_replace_join placeholder_nonempty)

text \<open>Two occurrences, both replaced; and a content without the placeholder.\<close>

theorem substitution_replaces_every_occurrence_witness:
  "new_content (join placeholder [lit ''a'', lit ''b'', lit ''c'']) (lit ''XY'') = lit ''aXYbXYc'' \<and>
   \<not> contains placeholder (lit ''abc'') \<and>
   new_content (lit ''abc'') (lit ''XY'') = lit ''abc''"
proof -
  have absent: "\<not> contains placeholder (lit ''abc'')" "\<not> contains placeholder (lit ''c'')"
    by (rule short_absent, simp add: placeholder_length lit_def)+
  have a: "\<not> contains placeholder (lit ''a'' @ butlast placeholder)"
    using short_absent [of "butlast placeholder" placeholder]
    by (simp add: placeholder_length) (simp add: placeholder_def lit_Nil lit_Cons)
  have b: "\<not> contains placeholder (lit ''b'' @ butlast placeholder)"
    using short_absent [of "butlast placeholder" placeholder]
    by (simp add: placeholder_length) (simp add: placeholder_def lit_Nil lit_Cons)
  have parts: "[lit ''a'', lit ''b'', lit ''c''] \<noteq> [] \<and>
      (\<forall>p \<in> set (butlast [lit ''a'', lit ''b'', lit ''c'']). \<not> contains placeholder (p @ butlast placeholder)) \<and>
      \<not> contains placeholder (last [lit ''a'', lit ''b'', lit ''c''])"
    using a b absent by simp
  have j: "join (lit ''XY'') [lit ''a'', lit ''b'', lit ''c''] = lit ''aXYbXYc''"
    by (simp add: lit_def)
  show ?thesis
    using absent parts j
      substitution_replaces_every_occurrence
        [of "lit ''abc''" "lit ''XY''" "[lit ''a'', lit ''b'', lit ''c'']"]
    by simp
qed

text \<open>
  C8 as stated asks for one occurrence to be replaced and the others to stay. A content
  that is twice the placeholder gives twice the fetched text.
\<close>

theorem single_replacement_counterexample:
  "new_content (placeholder @ placeholder) (lit ''X'') = lit ''XX'' \<and>
   new_content (placeholder @ placeholder) (lit ''X'') \<noteq> lit ''X'' @ placeholder"
proof -
  have none: "\<not> contains placeholder ([] @ butlast placeholder)"
    by (rule short_absent) (simp add: placeholder_length)
  have step: "str_replace (placeholder @ r) placeholder (lit ''X'') =
      lit ''X'' @ str_replace r placeholder (lit ''X'')" for r
    using str_replace_first [OF placeholder_nonempty none, of r "lit ''X''"] by simp
  have "str_replace (placeholder @ placeholder) placeholder (lit ''X'') =
      lit ''X'' @ lit ''X'' @ str_replace [] placeholder (lit ''X'')"
    using step [of placeholder] step [of "[]"] by simp
  then have twice: "new_content (placeholder @ placeholder) (lit ''X'') = lit ''XX''"
    using placeholder_nonempty by (simp add: new_content_def str_replace_def lit_def)
  have "length (lit ''XX'') \<noteq> length (lit ''X'' @ placeholder)"
    by (simp add: placeholder_length lit_def)
  then have "lit ''XX'' \<noteq> lit ''X'' @ placeholder"
    by metis
  then show ?thesis
    using twice by simp
qed

section \<open>The quoting\<close>

lemma first_surrogate_None: "first_surrogate s = None \<longleftrightarrow> (\<forall>c \<in> set s. \<not> is_surrogate c)"
  by (induction s) auto

lemma backslash_no_surrogate: "\<not> is_surrogate backslash"
  by (simp add: is_surrogate_def backslash_def)

lemma escape_no_surrogate:
  "first_surrogate text = None \<Longrightarrow> first_surrogate (escape_markdown_v2_message text) = None"
  using set_escape_chars [of "set reserved" "text"] backslash_no_surrogate
  by (auto simp: first_surrogate_None escape_message_eq escape_is_escape_chars)

lemma quote_bytes_by_char:
  "concat (map (quote_byte (always_safe @ lit ''/'')) (concat (map utf8_bytes s))) =
   concat (map quote_char s)"
  by (induction s) (simp_all add: quote_char_def)

lemma quote_no_surrogate:
  "first_surrogate s = None \<Longrightarrow> quote s = Inr (concat (map quote_char s))"
  by (simp add: quote_def encode_utf8_def quote_bytes_by_char)

lemma quote_char_backslash: "quote_char backslash = lit ''%5C''"
  by (simp add: quote_char_def utf8_bytes_def quote_byte_def always_safe_def hex_upper_def
      backslash_def lit_Nil lit_Cons)

lemma quote_char_newline: "quote_char newline = lit ''%0A''"
  by (simp add: quote_char_def utf8_bytes_def quote_byte_def always_safe_def hex_upper_def
      newline_def lit_Nil lit_Cons)

lemma quote_char_slash: "quote_char (of_char CHR ''/'') = lit ''/''"
  by (simp add: quote_char_def utf8_bytes_def quote_byte_def always_safe_def lit_Nil lit_Cons)

lemma message_transform_chars:
  assumes "first_surrogate text = None"
  shows "message_transform text =
    Inr (concat (map (\<lambda>c. if c \<in> set reserved then lit ''%5C'' @ quote_char c else quote_char c) text))"
proof -
  have "concat (map quote_char (escape_chars (set reserved) s)) =
      concat (map (\<lambda>c. if c \<in> set reserved then lit ''%5C'' @ quote_char c else quote_char c) s)" for s
    by (induction s) (simp_all add: escape_chars_Nil escape_chars_Cons quote_char_backslash)
  then show ?thesis
    using quote_no_surrogate [OF escape_no_surrogate [OF assms]]
    by (simp add: message_transform_def escape_message_eq escape_is_escape_chars)
qed

lemma hex_upper_safe: "hex_upper d \<in> set always_safe"
proof -
  have "hex_upper d \<in> set (lit ''0123456789ABCDEF'')"
    unfolding hex_upper_def by (rule nth_mem) (simp add: lit_def)
  also have "set (lit ''0123456789ABCDEF'') \<subseteq> set always_safe"
    by (simp add: always_safe_def lit_Nil lit_Cons)
  finally show ?thesis .
qed

lemma set_quote_byte:
  "set (quote_byte (always_safe @ lit ''/'') b) \<subseteq> set (always_safe @ lit ''/%'')"
  using hex_upper_safe by (auto simp: quote_byte_def lit_Nil lit_Cons)

lemma set_quote:
  assumes "quote s = Inr out"
  shows "set out \<subseteq> set (always_safe @ lit ''/%'')"
proof -
  obtain bs where "out = concat (map (quote_byte (always_safe @ lit ''/'')) bs)"
    using assms by (auto simp: quote_def split: sum.splits)
  then have "set out = (\<Union>b \<in> set bs. set (quote_byte (always_safe @ lit ''/'') b))"
    by simp
  then show ?thesis
    using set_quote_byte by blast
qed

lemma printed_alphabet:
  "newline \<notin> set (always_safe @ lit ''/%'') \<and> backslash \<notin> set (always_safe @ lit ''/%'') \<and>
   set (always_safe @ lit ''/%'') \<inter> (set url_reserved - {of_char CHR ''/''}) = {}"
  by (simp add: always_safe_def url_reserved_def newline_def backslash_def lit_Nil lit_Cons)

lemma quote_char_ascii:
  "c < 0x80 \<Longrightarrow> quote_char c = quote_byte (always_safe @ lit ''/'') c"
  by (simp add: quote_char_def utf8_bytes_def)

section \<open>The two \<^verbatim>\<open>main\<close> functions\<close>









section \<open>The message script\<close>

text \<open>
  C7, as the code has it. The quoting replaces every byte of the UTF-8 encoding of
  the escaped text by \<^verbatim>\<open>%XX\<close>, except the letters, the digits, \<^verbatim>\<open>_.-~\<close> and the
  slash. The printed text holds no newline, no backslash and no reserved URL character
  other than the slash: a newline is printed as \<^verbatim>\<open>%0A\<close>, each backslash of the escape
  as \<^verbatim>\<open>%5C\<close> before the quoting of the character it escapes, and a slash as itself.
\<close>

theorem quote_leaves_only_slash:
  "(message_transform text = Inr encoded \<longrightarrow>
      newline \<notin> set encoded \<and> backslash \<notin> set encoded \<and>
      set encoded \<inter> (set url_reserved - {of_char CHR ''/''}) = {}) \<and>
   (first_surrogate text = None \<longrightarrow>
      message_transform text =
        Inr (concat (map (\<lambda>c. if c \<in> set reserved then lit ''%5C'' @ quote_char c
                               else quote_char c) text))) \<and>
   quote_char newline = lit ''%0A'' \<and> quote_char backslash = lit ''%5C'' \<and>
   quote_char (of_char CHR ''/'') = lit ''/''"
proof -
  have "set encoded \<subseteq> set (always_safe @ lit ''/%'')" if "message_transform text = Inr encoded"
    using that set_quote by (simp add: message_transform_def)
  then have "newline \<notin> set encoded \<and> backslash \<notin> set encoded \<and>
      set encoded \<inter> (set url_reserved - {of_char CHR ''/''}) = {}"
    if "message_transform text = Inr encoded"
    using that printed_alphabet by blast
  then show ?thesis
    using message_transform_chars quote_char_newline quote_char_backslash quote_char_slash
    by blast
qed

theorem quote_leaves_only_slash_witness:
  "first_surrogate (lit ''a b/c!'' @ [newline]) = None \<and>
   message_transform (lit ''a b/c!'' @ [newline]) = Inr (lit ''a%20b/c%5C%21%0A'') \<and>
   newline \<notin> set (lit ''a%20b/c%5C%21%0A'') \<and> backslash \<notin> set (lit ''a%20b/c%5C%21%0A'') \<and>
   set (lit ''a%20b/c%5C%21%0A'') \<inter> (set url_reserved - {of_char CHR ''/''}) = {}"
proof -
  have none: "first_surrogate (lit ''a b/c!'' @ [newline]) = None"
    by (simp add: lit_Nil lit_Cons is_surrogate_def newline_def)
  have "concat (map (\<lambda>c. if c \<in> set reserved then lit ''%5C'' @ quote_char c else quote_char c)
      (lit ''a b/c!'' @ [newline])) = lit ''a%20b/c%5C%21%0A''"
    by (simp add: lit_Nil lit_Cons reserved_codes newline_def quote_char_ascii quote_byte_def
        always_safe_def hex_upper_def)
  then show ?thesis
    using none quote_leaves_only_slash [of "lit ''a b/c!'' @ [newline]" "lit ''a%20b/c%5C%21%0A''"]
    by simp
qed

text \<open>
  C7 as stated has every reserved URL character percent-encoded. The slash is one, and
  it is printed as it stands.
\<close>

theorem full_percent_encoding_counterexample:
  "message_transform (lit ''a/b'') = Inr (lit ''a/b'') \<and>
   of_char CHR ''/'' \<in> set url_reserved \<and>
   calls (main_message (Inr (lit ''a/b'')) None None) = [Print_stdout (lit ''a/b'')]"
proof -
  have "message_transform (lit ''a/b'') = Inr (lit ''a/b'')"
    by (simp add: message_transform_chars lit_Nil lit_Cons is_surrogate_def reserved_codes
        quote_char_ascii quote_byte_def always_safe_def)
  then show ?thesis
    by (simp add: main_message_def print_result_def url_reserved_def lit_Nil lit_Cons)
qed

end
